theory Spec2Isabelle
  imports Complex_Main "HOL-Library.AList" "HOL-Library.Char_ord" "HOL-Library.List_Lexorder"
    "HOL-Library.Log_Nat"
begin

section \<open>Numbers, objects and records of the expense tracker\<close>

text \<open>
  A JavaScript number is an IEEE double. A double is modelled by the rational it denotes,
  and every arithmetic operation by the exact operation followed by \<open>rd\<close>, the rounding
  to the nearest double with 53 significant bits, ties to the even one. Comparisons,
  \<open>Math.min\<close>, \<open>Math.abs\<close> and the unary minus are exact. The values of the program are
  amounts of money, so overflow, the subnormal range, infinities and NaN are left out.
\<close>

definition exponent :: "rat \<Rightarrow> int" where
  \<comment> \<open>for \<open>x > 0\<close>, the \<open>e\<close> with \<open>2 ^ e \<le> x < 2 ^ (e + 1)\<close>\<close>
  "exponent x = (let pq = quotient_of x; d = bitlen (fst pq) - bitlen (snd pq)
                 in if 2 powi d \<le> x then d else d - 1)"

definition round_even :: "rat \<Rightarrow> int" where
  "round_even q = (let f = \<lfloor>q\<rfloor>; r = q - of_int f
                   in if r < 1 / 2 then f else if 1 / 2 < r then f + 1
                      else if even f then f else f + 1)"

definition rd_pos :: "rat \<Rightarrow> rat" where
  "rd_pos x = (let u = 2 powi (exponent x - 52) in of_int (round_even (x / u)) * u)"

definition rd :: "rat \<Rightarrow> rat" where
  "rd x = (if x = 0 then 0 else if x < 0 then - rd_pos (- x) else rd_pos x)"

definition js_add :: "rat \<Rightarrow> rat \<Rightarrow> rat" where
  "js_add a b = rd (a + b)"

definition js_sub :: "rat \<Rightarrow> rat \<Rightarrow> rat" where
  "js_sub a b = rd (a - b)"

definition js_mul :: "rat \<Rightarrow> rat \<Rightarrow> rat" where
  "js_mul a b = rd (a * b)"

definition js_div :: "rat \<Rightarrow> rat \<Rightarrow> rat" where
  "js_div a b = rd (a / b)"

text \<open>The literals \<open>0.01\<close> and \<open>0.1\<close> are the doubles nearest to 1/100 and to 1/10.\<close>

definition cent :: rat where
  "cent = rd (1 / 100)"

definition tenth :: rat where
  "tenth = rd (1 / 10)"

text \<open>
  \<open>parseFloat(x.toFixed(2))\<close>: \<open>toFixed\<close> takes the integer \<open>n\<close> for which \<open>n / 100\<close> is nearest
  to the exact value of the magnitude of \<open>x\<close>, the larger one of two equally near, and writes
  it in decimal with the sign; \<open>parseFloat\<close> reads that decimal as the nearest double.
  \<open>toFixed(1)\<close> likewise with one decimal.
\<close>

definition toFixed2 :: "rat \<Rightarrow> rat" where
  "toFixed2 x = (if x < 0 then rd (- (of_int \<lfloor>(- x) * 100 + 1 / 2\<rfloor> / 100))
                 else rd (of_int \<lfloor>x * 100 + 1 / 2\<rfloor> / 100))"

definition toFixed1 :: "rat \<Rightarrow> rat" where
  "toFixed1 x = (if x < 0 then rd (- (of_int \<lfloor>(- x) * 10 + 1 / 2\<rfloor> / 10))
                 else rd (of_int \<lfloor>x * 10 + 1 / 2\<rfloor> / 10))"

text \<open>
  A JavaScript object with string keys is an association list in insertion order (the
  member ids and month keys are no array indices, which an object would list first):
  \<open>obj[k] = v\<close> is \<open>AList.update\<close> (overwrite in place, or append), \<open>delete obj[k]\<close> is
  \<open>AList.delete\<close>, \<open>Object.keys\<close>, \<open>Object.values\<close> and \<open>Object.entries\<close> read the list, and
  \<open>obj[k] || 0\<close> is \<open>lookup0\<close>.
\<close>

type_synonym 'v js_object = "(string \<times> 'v) list"

definition lookup0 :: "rat js_object \<Rightarrow> string \<Rightarrow> rat" where
  "lookup0 obj k = (case map_of obj k of None \<Rightarrow> 0 | Some v \<Rightarrow> v)"

text \<open>
  A member as the storage module keeps it. An empty \<open>m_avatar\<close> or \<open>m_color\<close> is the falsy
  value that the \<open>||\<close> defaults replace.
\<close>

record member =
  m_id :: string
  m_name :: string
  m_avatar :: string
  m_color :: string

text \<open>
  An expense with the fields that the calculation code reads. \<open>splitBetween\<close> and
  \<open>splitDetails\<close> are \<open>None\<close> when the field is missing; \<open>date\<close> is the day number of the
  expense date, \<open>None\<close> when the field is missing. An empty \<open>paidBy\<close> is the falsy payer.
\<close>

record expense =
  amount :: rat
  paidBy :: string
  splitType :: string
  splitBetween :: "string list option"
  splitDetails :: "rat js_object option"
  date :: "int option"

datatype js_error = Error string | TypeError

section \<open>SplitCalculator: calculateEqualSplit\<close>

definition calculateEqualSplit :: "rat \<Rightarrow> string list \<Rightarrow> js_error + rat js_object" where
  "calculateEqualSplit amt participants =
     (if length participants = 0 then Inl (Error ''Participants array is required'')
      else if amt = 0 \<or> amt \<le> 0 then Inl (Error ''Valid amount is required'')
      else
        (let share = js_div amt (of_nat (length participants))
         in Inr (fold (\<lambda>participantId splitDetails.
                         AList.update participantId (toFixed2 share) splitDetails)
                      participants [])))"

section \<open>BalanceAggregator: calculateBalances\<close>

definition add_to_balance :: "string \<Rightarrow> rat \<Rightarrow> rat js_object \<Rightarrow> rat js_object" where
  \<comment> \<open>\<open>balances[k] = (balances[k] || 0) + x\<close>\<close>
  "add_to_balance k x balances = AList.update k (js_add (lookup0 balances k) x) balances"

definition take_from_balance :: "string \<Rightarrow> rat \<Rightarrow> rat js_object \<Rightarrow> rat js_object" where
  \<comment> \<open>\<open>balances[k] = (balances[k] || 0) - x\<close>\<close>
  "take_from_balance k x balances = AList.update k (js_sub (lookup0 balances k) x) balances"

definition balance_expense :: "expense \<Rightarrow> rat js_object \<Rightarrow> rat js_object" where
  \<comment> \<open>the body of \<open>expenses.forEach\<close> for one expense object; \<open>expense.amount || 0\<close> is
      the amount itself, 0 being the only falsy number\<close>
  "balance_expense e balances =
     (let balances1 = add_to_balance (paidBy e) (amount e) balances
      in case splitDetails e of
           Some details \<Rightarrow>
             fold (\<lambda>(participantId, share) b.
                     if participantId \<noteq> paidBy e then take_from_balance participantId share b
                     else b)
                  details balances1
         | None \<Rightarrow>
             (case splitBetween e of
                Some between \<Rightarrow>
                  if length between > 0 then
                    (let share = js_div (amount e) (of_nat (length between))
                     in fold (\<lambda>participantId b.
                                if participantId \<noteq> paidBy e
                                then take_from_balance participantId share b else b)
                             between balances1)
                  else balances1
              | None \<Rightarrow> balances1))"

text \<open>
  The expense array may hold \<open>null\<close> (\<open>None\<close>): reading \<open>expense.paidBy\<close> of it throws a
  TypeError, which leaves the \<open>forEach\<close> at once.
\<close>

fun balance_expenses :: "expense option list \<Rightarrow> rat js_object \<Rightarrow> js_error + rat js_object" where
  "balance_expenses [] balances = Inr balances"
| "balance_expenses (None # es) balances = Inl TypeError"
| "balance_expenses (Some e # es) balances = balance_expenses es (balance_expense e balances)"

definition calculateBalances :: "expense option list \<Rightarrow> member list \<Rightarrow> rat js_object" where
  "calculateBalances expenses members =
     (let balances0 = fold (\<lambda>m b. AList.update (m_id m) 0 b) members []
      in case balance_expenses expenses balances0 of
           Inl err \<Rightarrow> []
         | Inr balances \<Rightarrow> map (\<lambda>(memberId, v). (memberId, toFixed2 v)) balances)"

section \<open>SettlementPlanner: calculateSettlements\<close>

record party =
  p_id :: string
  p_name :: string
  p_avatar :: string
  p_color :: string
  p_amount :: rat

record settlement =
  s_from :: string
  s_fromName :: string
  s_fromAvatar :: string
  s_fromColor :: string
  s_to :: string
  s_toName :: string
  s_toAvatar :: string
  s_toColor :: string
  s_amount :: rat

text \<open>
  The variables of the sweep in \<open>calculateSettlements\<close>: the arrays it has built and the
  two pointers.
\<close>

record planner =
  st_creditors :: "party list"
  st_debtors :: "party list"
  st_settlements :: "settlement list"
  st_i :: nat
  st_j :: nat

definition as_party :: "member \<Rightarrow> rat \<Rightarrow> party" where
  "as_party m a =
     \<lparr> p_id = m_id m, p_name = m_name m,
       p_avatar = (if m_avatar m \<noteq> [] then m_avatar m else take 1 (m_name m)),
       p_color = (if m_color m \<noteq> [] then m_color m else ''#3B82F6''),
       p_amount = a \<rparr>"

definition separate :: "rat js_object \<Rightarrow> member \<Rightarrow> party list \<times> party list \<Rightarrow> party list \<times> party list" where
  \<comment> \<open>the body of \<open>members.forEach\<close>: push onto \<open>creditors\<close> or \<open>debtors\<close>\<close>
  "separate balances m cd =
     (let balance = lookup0 balances (m_id m)
      in if balance > cent then (fst cd @ [as_party m balance], snd cd)
         else if balance < - cent then (fst cd, snd cd @ [as_party m (- balance)])
         else cd)"

definition sort_largest_first :: "party list \<Rightarrow> party list" where
  \<comment> \<open>\<open>sort((a, b) => b.amount - a.amount)\<close>, a stable sort\<close>
  "sort_largest_first ps = sort_key (\<lambda>p. - p_amount p) ps"

definition sweep_body :: "planner \<Rightarrow> planner" where
  "sweep_body st =
     (let creditor = st_creditors st ! st_i st;
          debtor = st_debtors st ! st_j st;
          settleAmount = min (p_amount creditor) (p_amount debtor);
          st1 = (if settleAmount > cent then
                   st \<lparr> st_settlements := st_settlements st @
                          [\<lparr> s_from = p_id debtor, s_fromName = p_name debtor,
                             s_fromAvatar = p_avatar debtor, s_fromColor = p_color debtor,
                             s_to = p_id creditor, s_toName = p_name creditor,
                             s_toAvatar = p_avatar creditor, s_toColor = p_color creditor,
                             s_amount = toFixed2 settleAmount \<rparr>],
                        st_creditors := (st_creditors st)
                          [st_i st := creditor \<lparr> p_amount := js_sub (p_amount creditor) settleAmount \<rparr>],
                        st_debtors := (st_debtors st)
                          [st_j st := debtor \<lparr> p_amount := js_sub (p_amount debtor) settleAmount \<rparr>] \<rparr>
                 else st);
          i' = (if p_amount (st_creditors st1 ! st_i st) < cent then st_i st + 1 else st_i st);
          j' = (if p_amount (st_debtors st1 ! st_j st) < cent then st_j st + 1 else st_j st)
      in st1 \<lparr> st_i := i', st_j := j' \<rparr>)"

text \<open>
  The \<open>while\<close> loop. It is a partial function: \<open>None\<close> is the loop that never ends.
\<close>

partial_function (option) sweep :: "planner \<Rightarrow> planner option" where
  "sweep st =
     (if st_i st < length (st_creditors st) \<and> st_j st < length (st_debtors st)
      then sweep (sweep_body st) else Some st)"

declare sweep.simps [code]

definition plan :: "rat js_object \<Rightarrow> member list \<Rightarrow> planner option" where
  \<comment> \<open>\<open>calculateSettlements\<close> up to its \<open>return\<close>, with the variables of the sweep\<close>
  "plan balances members =
     (let cd = fold (separate balances) members ([], [])
      in sweep \<lparr> st_creditors = sort_largest_first (fst cd),
                 st_debtors = sort_largest_first (snd cd),
                 st_settlements = [], st_i = 0, st_j = 0 \<rparr>)"

definition calculateSettlements :: "rat js_object \<Rightarrow> member list \<Rightarrow> settlement list option" where
  "calculateSettlements balances members = map_option st_settlements (plan balances members)"

section \<open>The persisted store and the absence records\<close>

text \<open>
  A date string is modelled by the day it denotes; \<open>None\<close> is a missing or empty date, for
  which \<open>new Date\<close> gives an Invalid Date, and every comparison with an Invalid Date is
  false.
\<close>

type_synonym js_date = "int option"


definition date_le :: "js_date \<Rightarrow> js_date \<Rightarrow> bool" where
  "date_le a b = (case a of None \<Rightarrow> False | Some x \<Rightarrow> (case b of None \<Rightarrow> False | Some y \<Rightarrow> x \<le> y))"

record absence =
  a_id :: string
  a_memberId :: string
  a_startDate :: js_date
  a_endDate :: js_date
  a_reason :: string
  a_createdAt :: string
  a_updatedAt :: string

text \<open>
  The three collections of \<open>localStorage\<close> that the modelled functions read and write:
  the members, the expenses by month key, and the absence records.
\<close>

record store =
  ls_members :: "member list"
  ls_expenses :: "expense list js_object"
  ls_presence :: "absence list"

text \<open>The globals: \<open>window.storage\<close> (\<open>None\<close> when not set) and whether \<open>window.presenceModule\<close> is set.\<close>

record window =
  w_storage :: "store option"
  w_presenceModule :: bool

section \<open>storage.js: deleteMember and savePresenceRecord\<close>

text \<open>
  A storage function returns what the call returns or throws, and the store after it.
\<close>

definition deleteMember :: "store \<Rightarrow> string \<Rightarrow> (js_error + bool) \<times> store" where
  "deleteMember s memberId =
     (let hasExpenses =
            list_ex (\<lambda>(monthKey, monthExpenses).
                list_ex (\<lambda>expense. paidBy expense = memberId \<or>
                           (case splitBetween expense of
                              Some between \<Rightarrow> memberId \<in> set between
                            | None \<Rightarrow> False))
                        monthExpenses)
              (ls_expenses s)
      in if hasExpenses then (Inl (Error ''Cannot delete member with existing expenses''), s)
         else
           (let filteredMembers = filter (\<lambda>m. m_id m \<noteq> memberId) (ls_members s);
                s1 = s \<lparr> ls_members := filteredMembers \<rparr>;
                filteredPresence = filter (\<lambda>record. a_memberId record \<noteq> memberId) (ls_presence s1)
            in (Inr True, s1 \<lparr> ls_presence := filteredPresence \<rparr>)))"




section \<open>presence.js: updateAbsence and getAbsentMembers\<close>




definition covers :: "absence \<Rightarrow> js_date \<Rightarrow> bool" where
  \<comment> \<open>the date test of \<open>getAbsentMembers\<close> for one record\<close>
  "covers record targetDate =
     (let startDate = a_startDate record;
          endDate = (case a_endDate record of Some d \<Rightarrow> Some d | None \<Rightarrow> startDate)
      in date_le startDate targetDate \<and> date_le targetDate endDate)"

definition getAbsentMembers :: "window \<Rightarrow> js_date \<Rightarrow> member list" where
  "getAbsentMembers w targetDate =
     (case w_storage w of
        None \<Rightarrow> []
      | Some s \<Rightarrow>
          filter (\<lambda>m. list_ex (\<lambda>record. if a_memberId record \<noteq> m_id m then False
                                      else covers record targetDate)
                        (ls_presence s))
                 (ls_members s))"

section \<open>AbsenceFilter: processAbsentMembers\<close>

definition redistribute :: "rat \<Rightarrow> string list \<Rightarrow> rat js_object \<Rightarrow> rat js_object" where
  \<comment> \<open>\<open>splitDetails[memberId] = (splitDetails[memberId] || 0) + adjustment\<close> for each present participant\<close>
  "redistribute adjustment presentParticipants details =
     fold (\<lambda>memberId d. AList.update memberId (js_add (lookup0 d memberId) adjustment) d)
          presentParticipants details"

definition processAbsentMembers :: "window \<Rightarrow> expense \<Rightarrow> expense" where
  "processAbsentMembers w expenseData =
     (if \<not> w_presenceModule w then expenseData
      else case date expenseData of
        None \<Rightarrow> expenseData
      | Some expenseDate \<Rightarrow>
          (let absentMembers = getAbsentMembers w (Some expenseDate);
               absentMemberIds = map m_id absentMembers
           in case splitBetween expenseData of
                None \<Rightarrow> expenseData
              | Some originalParticipants \<Rightarrow>
                  (let filtered = filter (\<lambda>memberId. memberId \<notin> set absentMemberIds)
                                         originalParticipants;
                       presentParticipants =
                         (if length filtered = 0 \<and> paidBy expenseData \<noteq> []
                          then filtered @ [paidBy expenseData] else filtered);
                       e1 = expenseData \<lparr> splitBetween := Some presentParticipants \<rparr>
                   in if splitType e1 = ''equal'' then
                        (let participantCount = length presentParticipants;
                             share = (if participantCount > 0
                                      then js_div (amount e1) (of_nat participantCount) else 0)
                         in e1 \<lparr> splitDetails :=
                                   Some (fold (\<lambda>memberId d. AList.update memberId share d)
                                              presentParticipants []) \<rparr>)
                      else case splitDetails e1 of
                        None \<Rightarrow> e1
                      | Some details \<Rightarrow>
                          (let details1 =
                                 fold (\<lambda>memberId d. if memberId \<in> set absentMemberIds
                                                     then AList.delete memberId d else d)
                                      (map fst details) details
                           in if splitType e1 = ''custom'' then
                                (let remainingAmount =
                                       fold (\<lambda>v total. js_add total v) (map snd details1) 0;
                                     difference = js_sub (amount e1) remainingAmount
                                 in if \<bar>difference\<bar> > cent \<and> length presentParticipants > 0
                                    then e1 \<lparr> splitDetails := Some (redistribute
                                           (js_div difference (of_nat (length presentParticipants)))
                                           presentParticipants details1) \<rparr>
                                    else e1 \<lparr> splitDetails := Some details1 \<rparr>)
                              else if splitType e1 = ''percentage'' then
                                (let remainingPercentage =
                                       fold (\<lambda>v total. js_add total v) (map snd details1) 0;
                                     difference = js_sub 100 remainingPercentage
                                 in if \<bar>difference\<bar> > tenth \<and> length presentParticipants > 0
                                    then e1 \<lparr> splitDetails := Some (redistribute
                                           (js_div difference (of_nat (length presentParticipants)))
                                           presentParticipants details1) \<rparr>
                                    else e1 \<lparr> splitDetails := Some details1 \<rparr>)
                              else e1 \<lparr> splitDetails := Some details1 \<rparr>))))"

section \<open>ReportAggregator: calculateTrends\<close>

text \<open>
  One entry of the trend array. \<open>t_growth\<close> is \<open>None\<close> while the property is not set. The
  display label \<open>monthName\<close> is left out: nothing reads it.
\<close>

record trend =
  t_month :: string
  t_total :: rat
  t_count :: nat
  t_average :: rat
  t_growth :: "rat option"

definition month_bucket :: "string \<times> expense list \<Rightarrow> trend" where
  "month_bucket entry =
     (let monthKey = fst entry; monthExpenses = snd entry;
          total = fold (\<lambda>e acc. js_add acc (amount e)) monthExpenses 0
      in \<lparr> t_month = monthKey, t_total = toFixed2 total, t_count = length monthExpenses,
           t_average = (if length monthExpenses > 0
                        then toFixed2 (js_div total (of_nat (length monthExpenses))) else 0),
           t_growth = None \<rparr>)"

definition growth_of :: "rat \<Rightarrow> rat \<Rightarrow> rat" where
  \<comment> \<open>the body of the growth loop, from \<open>previousTotal\<close> and \<open>currentTotal\<close>\<close>
  "growth_of previousTotal currentTotal =
     (if previousTotal > 0
      then toFixed1 (js_mul (js_div (js_sub currentTotal previousTotal) previousTotal) 100)
      else (if currentTotal > 0 then 100 else 0))"

function growth_loop :: "nat \<Rightarrow> trend list \<Rightarrow> trend list" where
  "growth_loop i trends =
     (if i < length trends then
        (let previousTotal = t_total (trends ! (i - 1));
             currentTotal = t_total (trends ! i)
         in growth_loop (i + 1)
              (trends[i := (trends ! i) \<lparr> t_growth := Some (growth_of previousTotal currentTotal) \<rparr>]))
      else trends)"
  by pat_completeness auto
termination
  by (relation "measure (\<lambda>(i, trends). length trends - i)") auto

declare growth_loop.simps [simp del]

text \<open>
  \<open>sort((a, b) => a.month.localeCompare(b.month))\<close> is a stable sort; on month keys of the
  form \<open>YYYY-MM\<close> the comparison is the lexicographic one.
\<close>

definition calculateTrends :: "expense list js_object \<Rightarrow> trend list" where
  "calculateTrends expensesByMonth =
     growth_loop 1 (sort_key t_month (map month_bucket expensesByMonth))"

section \<open>Inputs of the scenarios\<close>

definition alice :: member where
  "alice = \<lparr> m_id = ''alice'', m_name = ''Alice'', m_avatar = [], m_color = [] \<rparr>"

definition bob :: member where
  "bob = \<lparr> m_id = ''bob'', m_name = ''Bob'', m_avatar = [], m_color = [] \<rparr>"

definition carol :: member where
  "carol = \<lparr> m_id = ''carol'', m_name = ''Carol'', m_avatar = [], m_color = [] \<rparr>"


text \<open>Scenario 1: 90 paid by Alice, split equally among Alice, Bob and Carol.\<close>

definition dinner :: expense where
  "dinner = \<lparr> amount = 90, paidBy = ''alice'', splitType = ''equal'',
               splitBetween = Some [''alice'', ''bob'', ''carol''],
               splitDetails = Some [(''alice'', 30), (''bob'', 30), (''carol'', 30)],
               date = Some 10 \<rparr>"

definition pays :: "member \<Rightarrow> member \<Rightarrow> rat \<Rightarrow> settlement" where
  \<comment> \<open>the instruction "debtor pays creditor" for members without avatar and colour\<close>
  "pays debtor creditor a =
     \<lparr> s_from = m_id debtor, s_fromName = m_name debtor,
       s_fromAvatar = take 1 (m_name debtor), s_fromColor = ''#3B82F6'',
       s_to = m_id creditor, s_toName = m_name creditor,
       s_toAvatar = take 1 (m_name creditor), s_toColor = ''#3B82F6'',
       s_amount = a \<rparr>"

text \<open>Bob is away from day 5 to day 15; the dinner of scenario 1 is on day 10.\<close>

definition bob_away :: absence where
  "bob_away = \<lparr> a_id = ''r1'', a_memberId = ''bob'', a_startDate = Some 5, a_endDate = Some 15,
                 a_reason = ''Travel'', a_createdAt = ''t0'', a_updatedAt = ''t0'' \<rparr>"

definition away_store :: store where
  \<comment> \<open>no expenses; Bob has an absence record\<close>
  "away_store = \<lparr> ls_members = [alice, bob], ls_expenses = [], ls_presence = [bob_away] \<rparr>"

definition dinner_store :: store where
  \<comment> \<open>the dinner of scenario 1 is stored; Bob has an absence record\<close>
  "dinner_store = \<lparr> ls_members = [alice, bob, carol],
                     ls_expenses = [(''2024-01'', [dinner])],
                     ls_presence = [bob_away] \<rparr>"

definition dinner_window :: window where
  "dinner_window = \<lparr> w_storage = Some dinner_store, w_presenceModule = True \<rparr>"


section \<open>Notions of the specification\<close>


text \<open>A member id occurs as the payer or among the participants of a stored expense.\<close>

definition referenced_by_expense :: "store \<Rightarrow> string \<Rightarrow> bool" where
  "referenced_by_expense s memberId =
     (\<exists>entry \<in> set (ls_expenses s). \<exists>e \<in> set (snd entry).
        paidBy e = memberId \<or>
        memberId \<in> set (case splitBetween e of Some between \<Rightarrow> between | None \<Rightarrow> []))"

text \<open>The member ids that have a share in the resolved share map of an expense.\<close>

definition share_keys :: "expense \<Rightarrow> string set" where
  "share_keys e = (case splitDetails e of None \<Rightarrow> {} | Some details \<Rightarrow> fst ` set details)"




section \<open>More inputs\<close>










text \<open>Two month buckets, given out of order: 90 in February, 180 in January.\<close>

definition two_months :: "expense list js_object" where
  "two_months = [(''2024-02'', [dinner]), (''2024-01'', [dinner, dinner])]"

text \<open>A January without expenses before a February with the dinner.\<close>

definition empty_january :: "expense list js_object" where
  "empty_january = [(''2024-01'', []), (''2024-02'', [dinner])]"

text \<open>A rent of 2000 in January and of 2003 in February.\<close>

definition rents :: "expense list js_object" where
  "rents = [(''2024-01'', [dinner \<lparr> amount := 2000 \<rparr>]),
            (''2024-02'', [dinner \<lparr> amount := 2003 \<rparr>])]"


section \<open>Notions of the proofs about the sweep\<close>

text \<open>The multiples of \<open>2 ^ g\<close>.\<close>

definition on_grid :: "int \<Rightarrow> rat \<Rightarrow> bool" where
  "on_grid g x = (\<exists>k::int. x = of_int k * 2 powi g)"

text \<open>What is left for the two pointers to pass.\<close>

definition sweep_measure :: "planner \<Rightarrow> nat" where
  "sweep_measure st =
     (length (st_creditors st) - st_i st) + (length (st_debtors st) - st_j st)"




text \<open>The two arrays that \<open>members.forEach\<close> builds, before they are sorted.\<close>

definition creditors_of :: "rat js_object \<Rightarrow> member list \<Rightarrow> party list" where
  "creditors_of balances members =
     map (\<lambda>m. as_party m (lookup0 balances (m_id m)))
         (filter (\<lambda>m. lookup0 balances (m_id m) > cent) members)"

definition debtors_of :: "rat js_object \<Rightarrow> member list \<Rightarrow> party list" where
  "debtors_of balances members =
     map (\<lambda>m. as_party m (- lookup0 balances (m_id m)))
         (filter (\<lambda>m. lookup0 balances (m_id m) < - cent) members)"


section \<open>calculateSettlements on a heap of objects\<close>

text \<open>
  To say what \<open>calculateSettlements\<close> does to the objects it is given, the objects are put
  on a heap: a reference is an index of the heap, an object literal puts a new object at
  the end, and an assignment to a property overwrites the object at the reference. The
  balance object, the member objects and the member array are on the heap when the
  function is called, with \<open>balances\<close> and \<open>members\<close> the references of the two arguments;
  the objects that the function pushes onto \<open>creditors\<close> and \<open>debtors\<close> are put on the same
  heap, and the two arrays hold their references. The arrays \<open>settlements\<close>, \<open>creditors\<close>
  and \<open>debtors\<close> are created by the function and reached through its own variables only;
  they are kept as values, as are the instruction objects, to which nothing is assigned
  once they are pushed. A reference of the code always leads to an object of the kind
  that the code expects; what the selectors give for another kind is left open.
\<close>

datatype cell =
    Balances (the_balances: "rat js_object")
  | Member (the_member: member)
  | Members (the_members: "nat list")
  | Party (the_party: party)

type_synonym heap = "cell list"
















text \<open>
  The heap \<open>h\<close> has the objects of the heap \<open>h0\<close> as they were, and the references \<open>refs\<close>
  are different references of objects that were put on the heap after \<open>h0\<close> and are
  creditor or debtor objects.
\<close>

definition fresh_refs :: "heap \<Rightarrow> heap \<Rightarrow> nat list \<Rightarrow> bool" where
  "fresh_refs h0 h refs =
     (take (length h0) h = h0 \<and> distinct refs
      \<and> (\<forall>a \<in> set refs. length h0 \<le> a \<and> a < length h \<and> (\<exists>p. h ! a = Party p)))"




section \<open>Rounding to a double\<close>

lemma powi_pos: "0 < (2::rat) powi k"
  by (simp add: power_int_def)

lemma powi_add: "(2::rat) powi (a + b) = 2 powi a * 2 powi b"
  by (rule power_int_add) simp

lemma powi_diff: "(2::rat) powi (a - b) = 2 powi a / 2 powi b"
  by (rule power_int_diff) simp

lemma powi_mono: "a \<le> b \<Longrightarrow> (2::rat) powi a \<le> 2 powi b"
  by (rule power_int_increasing) simp_all

lemma powi_less_cancel:
  assumes "(2::rat) powi a < 2 powi b"
  shows "a < b"
proof (rule ccontr)
  assume "\<not> a < b"
  then have "b \<le> a" by simp
  from powi_mono[OF this] assms show False by simp
qed

lemma powi_of_nat: "0 \<le> k \<Longrightarrow> (2::rat) powi k = of_int (2 ^ nat k)"
  by (simp add: power_int_def)

lemma bitlen_pos_bounds:
  assumes "0 < p"
  shows "(2::rat) powi (bitlen p - 1) \<le> of_int p" and "(of_int p :: rat) < 2 powi bitlen p"
proof -
  from bitlen_bounds[OF assms]
  have lo: "2 ^ nat (bitlen p - 1) \<le> p" and hi: "p < 2 ^ nat (bitlen p)" by simp_all
  have b1: "1 \<le> bitlen p"
    using assms bitlen_eq_zero_iff[of p] bitlen_nonneg[of p] by linarith
  have "(2::rat) powi (bitlen p - 1) = of_int (2 ^ nat (bitlen p - 1))"
    using b1 by (simp add: powi_of_nat)
  also have "\<dots> \<le> of_int p" using lo by (simp only: of_int_le_iff)
  finally show "(2::rat) powi (bitlen p - 1) \<le> of_int p" .
  have "(of_int p :: rat) < of_int (2 ^ nat (bitlen p))" using hi by (simp only: of_int_less_iff)
  also have "\<dots> = 2 powi bitlen p" using b1 by (simp add: powi_of_nat)
  finally show "(of_int p :: rat) < 2 powi bitlen p" .
qed

lemma exponent_bounds:
  assumes "0 < x"
  shows "2 powi (exponent x) \<le> x" and "x < 2 powi (exponent x + 1)"
proof -
  obtain p q where pq: "quotient_of x = (p, q)" by (cases "quotient_of x")
  then have q: "0 < q" by (rule quotient_of_denom_pos)
  from pq have x: "x = of_int p / of_int q" by (rule quotient_of_div)
  from assms x q have p: "0 < p" by (simp add: zero_less_divide_iff)
  let ?d = "bitlen p - bitlen q"
  have qr: "0 < (of_int q :: rat)" using q by simp
  have xq: "x * of_int q = of_int p" using x qr by simp
  have up: "x < 2 powi (?d + 1)"
  proof -
    have "x * of_int q < 2 powi bitlen p" using bitlen_pos_bounds(2)[OF p] xq by simp
    also have "\<dots> = 2 powi (?d + 1) * 2 powi (bitlen q - 1)"
      by (simp add: powi_add[symmetric])
    also have "\<dots> \<le> 2 powi (?d + 1) * of_int q"
      using bitlen_pos_bounds(1)[OF q] powi_pos[of "?d + 1"] by (simp add: mult_left_mono)
    finally show ?thesis using qr by simp
  qed
  have lo: "2 powi (?d - 1) < x"
  proof -
    have "(2::rat) powi (?d - 1) * of_int q < 2 powi (?d - 1) * 2 powi bitlen q"
      using bitlen_pos_bounds(2)[OF q] powi_pos[of "?d - 1"] by (simp add: mult_strict_left_mono)
    also have "\<dots> = (2::rat) powi (bitlen p - 1)" by (simp add: powi_add[symmetric])
    also have "\<dots> \<le> x * of_int q" using bitlen_pos_bounds(1)[OF p] xq by simp
    finally show ?thesis using qr by simp
  qed
  have e: "exponent x = (if 2 powi ?d \<le> x then ?d else ?d - 1)"
    by (simp add: exponent_def Let_def pq)
  show "2 powi (exponent x) \<le> x"
    using lo by (simp add: e)
  show "x < 2 powi (exponent x + 1)"
    using up by (simp add: e not_le)
qed

lemma round_even_of_int: "round_even (of_int k) = k"
  by (simp add: round_even_def Let_def)

lemma rd_pos_exact:
  assumes "0 < x" and "x = of_int k * 2 powi g" and "exponent x - 52 \<le> g"
  shows "rd_pos x = x"
proof -
  let ?u = "(2::rat) powi (exponent x - 52)"
  let ?n = "nat (g - (exponent x - 52))"
  have "(2::rat) powi g = 2 powi (g - (exponent x - 52)) * ?u"
    by (simp add: powi_add[symmetric])
  also have "\<dots> = of_int (2 ^ ?n) * ?u" using assms(3) by (simp add: powi_of_nat)
  finally have "x = of_int (k * 2 ^ ?n) * ?u" using assms(2) by simp
  moreover have "?u \<noteq> 0" using powi_pos[of "exponent x - 52"] by simp
  ultimately have "x / ?u = of_int (k * 2 ^ ?n)" by (simp add: field_simps)
  then have "round_even (x / ?u) = k * 2 ^ ?n" by (simp only: round_even_of_int)
  with \<open>x = of_int (k * 2 ^ ?n) * ?u\<close> show ?thesis
    by (simp add: rd_pos_def Let_def)
qed

lemma rd_pos_grid:
  assumes "g \<le> exponent x - 52"
  shows "on_grid g (rd_pos x)"
proof -
  let ?n = "nat (exponent x - 52 - g)"
  have "(2::rat) powi (exponent x - 52) = 2 powi (exponent x - 52 - g) * 2 powi g"
    by (simp add: powi_add[symmetric])
  also have "\<dots> = of_int (2 ^ ?n) * 2 powi g" using assms by (simp add: powi_of_nat)
  finally have "rd_pos x = of_int (round_even (x / 2 powi (exponent x - 52)) * 2 ^ ?n) * 2 powi g"
    by (simp add: rd_pos_def Let_def)
  then show ?thesis unfolding on_grid_def by blast
qed

lemma on_grid_minus: "on_grid g x \<Longrightarrow> on_grid g (- x)"
proof -
  assume "on_grid g x"
  then obtain k :: int where "x = of_int k * 2 powi g" by (auto simp: on_grid_def)
  then have "- x = of_int (- k) * 2 powi g" by simp
  then show ?thesis unfolding on_grid_def by blast
qed

lemma on_grid_zero: "on_grid g 0"
  unfolding on_grid_def by (rule exI[of _ 0]) simp

lemma rd_pos_on_grid:
  assumes "0 < x" and "on_grid g x"
  shows "on_grid g (rd_pos x)"
proof (cases "g \<le> exponent x - 52")
  case True
  then show ?thesis by (rule rd_pos_grid)
next
  case False
  from assms(2) obtain k :: int where k: "x = of_int k * 2 powi g" by (auto simp: on_grid_def)
  from False have "exponent x - 52 \<le> g" by simp
  from rd_pos_exact[OF assms(1) k this] assms(2) show ?thesis by simp
qed

lemma rd_on_grid:
  assumes "on_grid g x"
  shows "on_grid g (rd x)"
proof -
  consider "x = 0" | "x < 0" | "0 < x" by linarith
  then show ?thesis
  proof cases
    case 1
    then show ?thesis by (simp add: rd_def on_grid_zero)
  next
    case 2
    then have "0 < - x" by simp
    from rd_pos_on_grid[OF this on_grid_minus[OF assms]]
    have "on_grid g (- rd_pos (- x))" by (rule on_grid_minus)
    with 2 show ?thesis by (simp add: rd_def)
  next
    case 3
    with rd_pos_on_grid[OF 3 assms] show ?thesis by (simp add: rd_def)
  qed
qed

lemma rd_zero: "rd 0 = 0"
  by (simp add: rd_def)

lemma rd_minus: "rd (- x) = - rd x"
  by (simp add: rd_def)


lemma cent_value: "cent = 5764607523034235 / 576460752303423488"
  by code_simp

lemma cent_pos: "0 < cent"
  by (simp add: cent_value)


lemma cent_off_grid: "\<not> on_grid (- 58) cent"
proof
  assume "on_grid (- 58) cent"
  then obtain k :: int where "cent = of_int k * 2 powi (- 58)" by (auto simp: on_grid_def)
  then have "(5764607523034235 :: rat) / 576460752303423488 = of_int k / 288230376151711744"
    by (simp add: cent_value power_int_minus_divide)
  then have "(of_int (2 * k) :: rat) = of_int 5764607523034235"
    by (simp add: field_simps)
  then have "2 * k = 5764607523034235" by (simp only: of_int_eq_iff)
  then show False by presburger
qed

section \<open>Whole cents as doubles\<close>

lemma on_grid_diff: "on_grid g x \<Longrightarrow> on_grid g y \<Longrightarrow> on_grid g (x - y)"
proof -
  assume "on_grid g x" "on_grid g y"
  then obtain k l :: int where "x = of_int k * 2 powi g" "y = of_int l * 2 powi g"
    by (auto simp: on_grid_def)
  then have "x - y = of_int (k - l) * 2 powi g" by (simp add: algebra_simps)
  then show ?thesis unfolding on_grid_def by blast
qed

lemma on_grid_min: "on_grid g x \<Longrightarrow> on_grid g y \<Longrightarrow> on_grid g (min x y)"
  by (simp add: min_def)

lemma js_sub_on_grid: "on_grid g x \<Longrightarrow> on_grid g y \<Longrightarrow> on_grid g (js_sub x y)"
  unfolding js_sub_def by (rule rd_on_grid) (rule on_grid_diff)

lemma js_sub_self: "js_sub x x = 0"
  by (simp add: js_sub_def rd_zero)

lemma rd_cents_grid:
  assumes "0 \<le> n" and "cent < rd (of_int n / 100)"
  shows "on_grid (- 58) (rd (of_int n / 100))"
proof -
  let ?z = "of_int n / 100 :: rat"
  have "n \<noteq> 0" using assms(2) cent_pos by (auto simp: rd_zero)
  moreover have "n \<noteq> 1" using assms(2) by (auto simp: cent_def)
  ultimately have n2: "2 \<le> n" using assms(1) by linarith
  then have "(2::rat) \<le> of_int n" by simp
  then have z: "2 / 100 \<le> ?z" by simp
  then have zpos: "0 < ?z" by simp
  have "(2::rat) powi (- 6) < 2 / 100" by (simp add: power_int_minus_divide)
  also have "\<dots> \<le> ?z" by (rule z)
  also have "\<dots> < 2 powi (exponent ?z + 1)" by (rule exponent_bounds(2)[OF zpos])
  finally have "- 6 < exponent ?z + 1" by (rule powi_less_cancel)
  then have "- 58 \<le> exponent ?z - 52" by simp
  then have "on_grid (- 58) (rd_pos ?z)" by (rule rd_pos_grid)
  with zpos show ?thesis by (simp add: rd_def)
qed

lemma round_even_nonneg: "0 \<le> q \<Longrightarrow> 0 \<le> round_even q"
proof -
  assume "0 \<le> q"
  then have "0 \<le> \<lfloor>q\<rfloor>" by simp
  then show ?thesis by (simp add: round_even_def Let_def)
qed

lemma rd_nonneg: "0 \<le> x \<Longrightarrow> 0 \<le> rd x"
proof -
  assume x: "0 \<le> x"
  have u: "(0::rat) < 2 powi (exponent x - 52)" by (rule powi_pos)
  with x have "0 \<le> x / 2 powi (exponent x - 52)" by simp
  then have "0 \<le> round_even (x / 2 powi (exponent x - 52))" by (rule round_even_nonneg)
  then have "(0::rat) \<le> of_int (round_even (x / 2 powi (exponent x - 52)))" by simp
  with u have "0 \<le> rd_pos x" unfolding rd_pos_def Let_def by (intro mult_nonneg_nonneg) simp_all
  with x show ?thesis by (simp add: rd_def)
qed

lemma toFixed2_on_grid:
  assumes "cent < \<bar>toFixed2 x\<bar>"
  shows "on_grid (- 58) (toFixed2 x)"
proof (cases "x < 0")
  case False
  let ?n = "\<lfloor>x * 100 + 1 / 2\<rfloor>"
  from False have "0 \<le> x * 100 + 1 / 2" by simp
  then have n: "0 \<le> ?n" by simp
  from False have b: "toFixed2 x = rd (of_int ?n / 100)" by (simp add: toFixed2_def)
  from n have "(0::rat) \<le> of_int ?n / 100" by simp
  then have "0 \<le> rd (of_int ?n / 100)" by (rule rd_nonneg)
  with assms have "cent < rd (of_int ?n / 100)" by (simp add: b)
  from rd_cents_grid[OF n this] show ?thesis by (simp only: b)
next
  case True
  let ?n = "\<lfloor>(- x) * 100 + 1 / 2\<rfloor>"
  from True have "0 \<le> (- x) * 100 + 1 / 2" by simp
  then have n: "0 \<le> ?n" by simp
  from True have b: "toFixed2 x = - rd (of_int ?n / 100)"
    by (simp add: toFixed2_def rd_minus)
  from n have "(0::rat) \<le> of_int ?n / 100" by simp
  then have "0 \<le> rd (of_int ?n / 100)" by (rule rd_nonneg)
  with assms have "cent < rd (of_int ?n / 100)" by (simp add: b)
  from rd_cents_grid[OF n this] have "on_grid (- 58) (rd (of_int ?n / 100))" .
  from on_grid_minus[OF this] show ?thesis by (simp only: b)
qed

lemma toFixed2_zero: "toFixed2 0 = 0"
proof -
  have "\<lfloor>1 / 2 :: rat\<rfloor> = 0" by (rule floor_unique) simp_all
  then show ?thesis by (simp add: toFixed2_def rd_zero)
qed

section \<open>The sweep of the settlement planner\<close>



lemma sweep_body_skip:
  assumes "\<not> cent < min (p_amount (st_creditors st ! st_i st)) (p_amount (st_debtors st ! st_j st))"
  shows "sweep_body st =
           st \<lparr> st_i := (if p_amount (st_creditors st ! st_i st) < cent then st_i st + 1 else st_i st),
                st_j := (if p_amount (st_debtors st ! st_j st) < cent then st_j st + 1 else st_j st) \<rparr>"
  unfolding sweep_body_def Let_def if_not_P[OF assms] by (rule refl)

lemma sweep_body_settle:
  assumes "cent < min (p_amount (st_creditors st ! st_i st)) (p_amount (st_debtors st ! st_j st))"
  shows "sweep_body st =
           (st \<lparr> st_settlements := st_settlements st @
                          [\<lparr> s_from = p_id (st_debtors st ! st_j st), s_fromName = p_name (st_debtors st ! st_j st),
                             s_fromAvatar = p_avatar (st_debtors st ! st_j st), s_fromColor = p_color (st_debtors st ! st_j st),
                             s_to = p_id (st_creditors st ! st_i st), s_toName = p_name (st_creditors st ! st_i st),
                             s_toAvatar = p_avatar (st_creditors st ! st_i st), s_toColor = p_color (st_creditors st ! st_i st),
                             s_amount = toFixed2 (min (p_amount (st_creditors st ! st_i st)) (p_amount (st_debtors st ! st_j st))) \<rparr>],
                        st_creditors := (st_creditors st)
                          [st_i st := (st_creditors st ! st_i st) \<lparr> p_amount := js_sub (p_amount (st_creditors st ! st_i st))
                              (min (p_amount (st_creditors st ! st_i st)) (p_amount (st_debtors st ! st_j st))) \<rparr>],
                        st_debtors := (st_debtors st)
                          [st_j st := (st_debtors st ! st_j st) \<lparr> p_amount := js_sub (p_amount (st_debtors st ! st_j st))
                              (min (p_amount (st_creditors st ! st_i st)) (p_amount (st_debtors st ! st_j st))) \<rparr>] \<rparr>)
             \<lparr> st_i := (if p_amount ((st_creditors st)
                          [st_i st := (st_creditors st ! st_i st) \<lparr> p_amount := js_sub (p_amount (st_creditors st ! st_i st))
                              (min (p_amount (st_creditors st ! st_i st)) (p_amount (st_debtors st ! st_j st))) \<rparr>] ! st_i st) < cent
                       then st_i st + 1 else st_i st),
               st_j := (if p_amount ((st_debtors st)
                          [st_j st := (st_debtors st ! st_j st) \<lparr> p_amount := js_sub (p_amount (st_debtors st ! st_j st))
                              (min (p_amount (st_creditors st ! st_i st)) (p_amount (st_debtors st ! st_j st))) \<rparr>] ! st_j st) < cent
                       then st_j st + 1 else st_j st) \<rparr>"
  unfolding sweep_body_def Let_def if_P[OF assms] by simp

text \<open>The fields of the state after one iteration, from the two amounts at the pointers.\<close>

lemma sweep_body_fields:
  assumes il: "st_i st < length (st_creditors st)" and jl: "st_j st < length (st_debtors st)"
  defines "c \<equiv> p_amount (st_creditors st ! st_i st)"
    and "d \<equiv> p_amount (st_debtors st ! st_j st)"
  shows "length (st_creditors (sweep_body st)) = length (st_creditors st)"
    and "length (st_debtors (sweep_body st)) = length (st_debtors st)"
    and "st_i (sweep_body st) =
          (if (if cent < min c d then js_sub c (min c d) else c) < cent
           then st_i st + 1 else st_i st)"
    and "st_j (sweep_body st) =
          (if (if cent < min c d then js_sub d (min c d) else d) < cent
           then st_j st + 1 else st_j st)"
    and "set (map p_amount (st_creditors (sweep_body st)))
          \<subseteq> insert (js_sub c (min c d)) (set (map p_amount (st_creditors st)))"
    and "set (map p_amount (st_debtors (sweep_body st)))
          \<subseteq> insert (js_sub d (min c d)) (set (map p_amount (st_debtors st)))"
proof -
  show "length (st_creditors (sweep_body st)) = length (st_creditors st)"
    and "length (st_debtors (sweep_body st)) = length (st_debtors st)"
    by (cases "cent < min c d"; simp add: sweep_body_skip sweep_body_settle c_def d_def)+
  show "st_i (sweep_body st) =
          (if (if cent < min c d then js_sub c (min c d) else c) < cent
           then st_i st + 1 else st_i st)"
    using il by (cases "cent < min c d"; auto simp add: sweep_body_skip sweep_body_settle c_def d_def)
  show "st_j (sweep_body st) =
          (if (if cent < min c d then js_sub d (min c d) else d) < cent
           then st_j st + 1 else st_j st)"
    using jl by (cases "cent < min c d"; auto simp add: sweep_body_skip sweep_body_settle c_def d_def)
  have u: "set (map p_amount (xs[k := x])) \<subseteq> insert (p_amount x) (set (map p_amount xs))"
    for xs :: "party list" and k x
    using set_update_subset_insert[of xs k x] by auto
  show "set (map p_amount (st_creditors (sweep_body st)))
          \<subseteq> insert (js_sub c (min c d)) (set (map p_amount (st_creditors st)))"
  proof (cases "cent < min c d")
    case True
    then show ?thesis
      using u[of "st_creditors st" "st_i st"
          "(st_creditors st ! st_i st) \<lparr> p_amount := js_sub c (min c d) \<rparr>"]
      by (simp add: sweep_body_settle c_def d_def)
  next
    case False
    then show ?thesis by (auto simp add: sweep_body_skip c_def d_def)
  qed
  show "set (map p_amount (st_debtors (sweep_body st)))
          \<subseteq> insert (js_sub d (min c d)) (set (map p_amount (st_debtors st)))"
  proof (cases "cent < min c d")
    case True
    then show ?thesis
      using u[of "st_debtors st" "st_j st"
          "(st_debtors st ! st_j st) \<lparr> p_amount := js_sub d (min c d) \<rparr>"]
      by (simp add: sweep_body_settle c_def d_def)
  next
    case False
    then show ?thesis by (auto simp add: sweep_body_skip c_def d_def)
  qed
qed

lemma sweep_progress:
  assumes il: "st_i st < length (st_creditors st)" and jl: "st_j st < length (st_debtors st)"
    and off: "min (p_amount (st_creditors st ! st_i st)) (p_amount (st_debtors st ! st_j st)) \<noteq> cent"
  shows "sweep_measure (sweep_body st) < sweep_measure st"
proof -
  define c where "c = p_amount (st_creditors st ! st_i st)"
  define d where "d = p_amount (st_debtors st ! st_j st)"
  note f = sweep_body_fields[OF il jl, folded c_def d_def]
  have adv: "(if cent < min c d then js_sub c (min c d) else c) < cent
           \<or> (if cent < min c d then js_sub d (min c d) else d) < cent"
  proof (cases "cent < min c d")
    case True
    have "js_sub c (min c d) = 0 \<or> js_sub d (min c d) = 0"
      by (cases "c \<le> d") (simp_all add: min_def js_sub_self)
    with True cent_pos show ?thesis by auto
  next
    case False
    from False off[folded c_def d_def] have lt: "min c d < cent" by linarith
    then have "c < cent \<or> d < cent" by (simp add: min_def split: if_splits)
    with False show ?thesis by (simp only: if_False)
  qed
  have i': "st_i st \<le> st_i (sweep_body st)" and j': "st_j st \<le> st_j (sweep_body st)"
    by (simp_all add: f(3,4))
  from adv have "st_i st < st_i (sweep_body st) \<or> st_j st < st_j (sweep_body st)"
    by (auto simp: f(3,4))
  moreover have "st_i (sweep_body st) \<le> st_i st + 1" "st_j (sweep_body st) \<le> st_j st + 1"
    by (simp_all add: f(3,4))
  ultimately show ?thesis
    using il jl i' j' unfolding sweep_measure_def f(1,2) by linarith
qed

lemma sweep_keeps_grid:
  assumes il: "st_i st < length (st_creditors st)" and jl: "st_j st < length (st_debtors st)"
    and g: "\<forall>x \<in> set (map p_amount (st_creditors st)) \<union> set (map p_amount (st_debtors st)).
              on_grid (- 58) x"
  shows "\<forall>x \<in> set (map p_amount (st_creditors (sweep_body st)))
             \<union> set (map p_amount (st_debtors (sweep_body st))). on_grid (- 58) x"
proof -
  define c where "c = p_amount (st_creditors st ! st_i st)"
  define d where "d = p_amount (st_debtors st ! st_j st)"
  note f = sweep_body_fields[OF il jl, folded c_def d_def]
  have "c \<in> set (map p_amount (st_creditors st))" "d \<in> set (map p_amount (st_debtors st))"
    using il jl by (simp_all add: c_def d_def)
  with g have c: "on_grid (- 58) c" and d: "on_grid (- 58) d" by auto
  then have m: "on_grid (- 58) (min c d)" by (rule on_grid_min)
  have "on_grid (- 58) (js_sub c (min c d))" "on_grid (- 58) (js_sub d (min c d))"
    using c d m by (simp_all add: js_sub_on_grid)
  with g f(5,6) show ?thesis by blast
qed

lemma sweep_returns:
  assumes "\<forall>x \<in> set (map p_amount (st_creditors st)) \<union> set (map p_amount (st_debtors st)).
              on_grid (- 58) x"
  shows "\<exists>st'. sweep st = Some st'"
  using assms
proof (induction "sweep_measure st" arbitrary: st rule: less_induct)
  case less
  show ?case
  proof (cases "st_i st < length (st_creditors st) \<and> st_j st < length (st_debtors st)")
    case False
    have "sweep st = Some st" by (subst sweep.simps) (simp only: False if_False)
    then show ?thesis by blast
  next
    case True
    then have il: "st_i st < length (st_creditors st)" and jl: "st_j st < length (st_debtors st)"
      by simp_all
    have "p_amount (st_creditors st ! st_i st) \<in> set (map p_amount (st_creditors st))"
      "p_amount (st_debtors st ! st_j st) \<in> set (map p_amount (st_debtors st))"
      using il jl by simp_all
    with less.prems have "on_grid (- 58) (p_amount (st_creditors st ! st_i st))"
      "on_grid (- 58) (p_amount (st_debtors st ! st_j st))" by auto
    then have "on_grid (- 58)
        (min (p_amount (st_creditors st ! st_i st)) (p_amount (st_debtors st ! st_j st)))"
      by (rule on_grid_min)
    with cent_off_grid
    have off: "min (p_amount (st_creditors st ! st_i st)) (p_amount (st_debtors st ! st_j st)) \<noteq> cent"
      by auto
    from less.hyps[OF sweep_progress[OF il jl off] sweep_keeps_grid[OF il jl less.prems]]
    obtain st' where "sweep (sweep_body st) = Some st'" by blast
    with True have "sweep st = Some st'" by (subst sweep.simps) simp
    then show ?thesis by blast
  qed
qed

lemma fold_separate:
  "fold (separate b) ms (c, d) = (c @ creditors_of b ms, d @ debtors_of b ms)"
proof (induction ms arbitrary: c d)
  case Nil
  show ?case by (simp add: creditors_of_def debtors_of_def)
next
  case (Cons m ms)
  have less: "lookup0 b (m_id m) < - cent \<Longrightarrow> \<not> cent < lookup0 b (m_id m)"
    using cent_pos by simp
  have step: "separate b m (c, d) =
      (if lookup0 b (m_id m) > cent then (c @ [as_party m (lookup0 b (m_id m))], d)
       else if lookup0 b (m_id m) < - cent
         then (c, d @ [as_party m (- lookup0 b (m_id m))])
       else (c, d))"
    by (simp add: separate_def Let_def)
  have "fold (separate b) (m # ms) (c, d) = fold (separate b) ms (separate b m (c, d))"
    by simp
  also have "\<dots> = (c @ creditors_of b (m # ms), d @ debtors_of b (m # ms))"
    unfolding step using less by (simp add: Cons.IH creditors_of_def debtors_of_def)
  finally show ?case .
qed

lemma plan_start:
  "plan b ms = sweep \<lparr> st_creditors = sort_largest_first (creditors_of b ms),
                       st_debtors = sort_largest_first (debtors_of b ms),
                       st_settlements = [], st_i = 0, st_j = 0 \<rparr>"
  by (simp add: plan_def Let_def fold_separate[of _ _ "[]" "[]", simplified])

lemma set_sorted: "set (sort_largest_first ps) = set ps"
  by (simp add: sort_largest_first_def)

lemma plan_returns_on_cents:
  assumes "\<forall>m \<in> set members. \<exists>x. lookup0 balances (m_id m) = toFixed2 x"
  shows "\<exists>st. plan balances members = Some st"
proof -
  let ?st0 = "\<lparr> st_creditors = sort_largest_first (creditors_of balances members),
                st_debtors = sort_largest_first (debtors_of balances members),
                st_settlements = [], st_i = 0, st_j = 0 \<rparr>"
  have "on_grid (- 58) x"
    if "x \<in> set (map p_amount (st_creditors ?st0)) \<union> set (map p_amount (st_debtors ?st0))" for x
  proof -
    from that obtain m where m: "m \<in> set members"
      and x: "(x = lookup0 balances (m_id m) \<and> cent < lookup0 balances (m_id m))
            \<or> (x = - lookup0 balances (m_id m) \<and> lookup0 balances (m_id m) < - cent)"
      by (auto simp: set_sorted creditors_of_def debtors_of_def as_party_def)
    from assms m obtain y where fx: "lookup0 balances (m_id m) = toFixed2 y"
      by blast
    from x cent_pos have "cent < \<bar>lookup0 balances (m_id m)\<bar>" by auto
    then have "on_grid (- 58) (lookup0 balances (m_id m))"
      unfolding fx by (rule toFixed2_on_grid)
    with x show ?thesis by (auto intro: on_grid_minus)
  qed
  then have "\<exists>st'. sweep ?st0 = Some st'" by (intro sweep_returns) blast
  then show ?thesis by (simp add: plan_start)
qed





section \<open>What the sweep leaves of whole-number balances\<close>





































section \<open>The keys of an object\<close>

lemma keys_fold_grows:
  assumes "\<And>x b. fst ` set b \<subseteq> fst ` set (f x b)"
  shows "fst ` set b \<subseteq> fst ` set (fold f xs b)"
proof (induction xs arbitrary: b)
  case Nil
  show ?case by simp
next
  case (Cons x xs)
  have "fst ` set b \<subseteq> fst ` set (f x b)" by (rule assms)
  also have "\<dots> \<subseteq> fst ` set (fold f xs (f x b))" by (rule Cons.IH)
  finally show ?case by simp
qed

lemma keys_fold_update:
  "fst ` set (fold (\<lambda>memberId d. AList.update memberId (g d memberId) d) ks d0)
     = set ks \<union> fst ` set d0"
  by (induction ks arbitrary: d0) (auto simp: dom_update)

lemma keys_delete: "fst ` set (AList.delete k al) = fst ` set al - {k}"
proof -
  have "set (map fst (AList.delete k al)) = set (removeAll k (map fst al))"
    by (simp only: delete_keys)
  then show ?thesis by simp
qed

lemma keys_fold_delete:
  "fst ` set (fold (\<lambda>memberId d. if memberId \<in> A then AList.delete memberId d else d) ks d0)
     = fst ` set d0 - (set ks \<inter> A)"
  by (induction ks arbitrary: d0) (auto simp: keys_delete)

lemma keys_redistribute:
  "fst ` set (redistribute adj ks d0) = set ks \<union> fst ` set d0"
  unfolding redistribute_def by (rule keys_fold_update)

lemma keys_add_to_balance: "fst ` set (add_to_balance k x b) = insert k (fst ` set b)"
  by (simp add: add_to_balance_def dom_update)

lemma keys_take_from_balance: "fst ` set (take_from_balance k x b) = insert k (fst ` set b)"
  by (simp add: take_from_balance_def dom_update)

section \<open>The balance aggregation\<close>

text \<open>
  C1 (conservation: the balances returned by \<open>calculateBalances\<close> sum to about zero, at most
  0.01 per member). The theorem evaluates the code at scenario 1, where every member id of
  the expense is in the member list: \<open>calculateBalances\<close> credits Alice with the full 90
  and, because of the test \<open>participantId !== paidBy\<close>, never charges her own share of 30,
  so that the three balances sum to 30, which is more than 0.01 for each of the three
  members.
\<close>

theorem balances_sum_scenario1:
  "sum_list (map snd (calculateBalances [Some dinner] [alice, bob, carol])) = 30
   \<and> \<not> \<bar>sum_list (map snd (calculateBalances [Some dinner] [alice, bob, carol]))\<bar>
         \<le> (1 / 100) * of_nat (length [alice, bob, carol])"
  by code_simp

text \<open>
  C2 (scenario 1: shares 30/30/30, balances Alice +60, Bob -30, Carol -30, settlements
  Bob to Alice 30 and Carol to Alice 30). The theorem evaluates the three functions: the
  shares and the two settlement instructions are as the scenario says, on the balances that
  the code returns as well as on the balances of the scenario, but \<open>calculateBalances\<close> returns
  +90 for Alice, not +60.
\<close>

theorem scenario1_evaluated:
  "calculateEqualSplit 90 [''alice'', ''bob'', ''carol'']
     = Inr [(''alice'', 30), (''bob'', 30), (''carol'', 30)]
   \<and> calculateBalances [Some dinner] [alice, bob, carol]
     = [(''alice'', 90), (''bob'', - 30), (''carol'', - 30)]
   \<and> calculateSettlements (calculateBalances [Some dinner] [alice, bob, carol])
        [alice, bob, carol]
     = Some [pays bob alice 30, pays carol alice 30]
   \<and> calculateSettlements [(''alice'', 60), (''bob'', - 30), (''carol'', - 30)]
        [alice, bob, carol]
     = Some [pays bob alice 30, pays carol alice 30]"
  by code_simp

lemma balance_expenses_None: "None \<in> set es \<Longrightarrow> balance_expenses es b = Inl TypeError"
  by (induction es b rule: balance_expenses.induct) auto

lemma balance_expenses_Some: "None \<notin> set es \<Longrightarrow> \<exists>b'. balance_expenses es b = Inr b'"
  by (induction es b rule: balance_expenses.induct) auto

lemma keys_balance_expense: "fst ` set b \<subseteq> fst ` set (balance_expense e b)"
proof -
  let ?b1 = "add_to_balance (paidBy e) (amount e) b"
  have b1: "fst ` set b \<subseteq> fst ` set ?b1"
    by (simp add: keys_add_to_balance subset_insertI)
  have d: "fst ` set ?b1 \<subseteq> fst ` set (fold (\<lambda>(participantId, share) b.
                     if participantId \<noteq> paidBy e then take_from_balance participantId share b
                     else b) details ?b1)" for details
    by (rule keys_fold_grows) (simp add: split_beta keys_take_from_balance subset_insertI)
  have s: "fst ` set ?b1 \<subseteq> fst ` set (fold (\<lambda>participantId b.
                                if participantId \<noteq> paidBy e
                                then take_from_balance participantId share b else b) between ?b1)"
    for share between
    by (rule keys_fold_grows) (simp add: keys_take_from_balance subset_insertI)
  show ?thesis
  proof (cases "splitDetails e")
    case (Some details)
    then show ?thesis using b1 d[of details] by (simp add: balance_expense_def Let_def)
  next
    case None
    note nd = this
    show ?thesis
    proof (cases "splitBetween e")
      case None
      with nd b1 show ?thesis by (simp add: balance_expense_def Let_def)
    next
      case (Some between)
      with nd b1 s[of "js_div (amount e) (of_nat (length between))" between] show ?thesis
        by (simp add: balance_expense_def Let_def) blast
    qed
  qed
qed

lemma keys_balance_expenses:
  "balance_expenses es b = Inr b' \<Longrightarrow> fst ` set b \<subseteq> fst ` set b'"
proof (induction es b rule: balance_expenses.induct)
  case (3 e es balances)
  then show ?case using keys_balance_expense[of balances e] by auto
qed auto

lemma keys_init:
  "fst ` set (fold (\<lambda>m b. AList.update (m_id m) 0 b) members b0)
     = m_id ` set members \<union> fst ` set b0"
  by (induction members arbitrary: b0) (auto simp: dom_update)

text \<open>
  C7 (a malformed record is skipped and the rest is aggregated), as amended: the
  aggregation is all or nothing. If the expense array holds a \<open>null\<close> record anywhere,
  \<open>calculateBalances\<close> does not throw and returns the empty object, whatever the other
  expenses are; if it holds none, the object returned has a balance for every member.
\<close>

theorem calculateBalances_all_or_nothing:
  "(None \<in> set expenses \<longrightarrow> calculateBalances expenses members = [])
   \<and> (None \<notin> set expenses \<longrightarrow>
        m_id ` set members \<subseteq> fst ` set (calculateBalances expenses members))"
proof (intro conjI impI)
  assume "None \<in> set expenses"
  then show "calculateBalances expenses members = []"
    by (simp add: calculateBalances_def balance_expenses_None)
next
  assume wf: "None \<notin> set expenses"
  let ?b0 = "fold (\<lambda>m b. AList.update (m_id m) 0 b) members []"
  from balance_expenses_Some[OF wf]
  obtain b' where b': "balance_expenses expenses ?b0 = Inr b'" by blast
  from keys_balance_expenses[OF b'] have "m_id ` set members \<subseteq> fst ` set b'"
    by (simp add: keys_init)
  moreover have "fst ` set (map (\<lambda>(memberId, v). (memberId, toFixed2 v)) b') = fst ` set b'"
    by force
  ultimately show "m_id ` set members \<subseteq> fst ` set (calculateBalances expenses members)"
    using b' by (simp add: calculateBalances_def)
qed

theorem calculateBalances_all_or_nothing_witness:
  "None \<in> set [Some dinner, None]
   \<and> calculateBalances [Some dinner, None] [alice, bob, carol] = []
   \<and> None \<notin> set [Some dinner]
   \<and> m_id ` set [alice, bob, carol]
        \<subseteq> fst ` set (calculateBalances [Some dinner] [alice, bob, carol])"
proof -
  have 1: "None \<in> set [Some dinner, None]" by simp
  have 2: "None \<notin> set [Some dinner]" by simp
  show ?thesis
    using 1 2 calculateBalances_all_or_nothing [of "[Some dinner, None]" "[alice, bob, carol]"]
      calculateBalances_all_or_nothing [of "[Some dinner]" "[alice, bob, carol]"]
    by blast
qed

theorem calculateBalances_null_discards_rest:
  "calculateBalances [Some dinner, None] [alice, bob, carol] = []
   \<and> calculateBalances [Some dinner] [alice, bob, carol]
       = [(''alice'', 90), (''bob'', - 30), (''carol'', - 30)]"
  by code_simp

section \<open>The absence filter\<close>

lemma absent_member_id:
  assumes "w_storage w = Some s" and "m \<in> set (ls_members s)" and "r \<in> set (ls_presence s)"
    and "a_memberId r = m_id m" and "covers r targetDate"
  shows "m_id m \<in> set (map m_id (getAbsentMembers w targetDate))"
proof -
  have "list_ex (\<lambda>record. if a_memberId record \<noteq> m_id m then False
                                      else covers record targetDate) (ls_presence s)"
    unfolding list_ex_iff using assms(3-5) by auto
  with assms(1,2) have "m \<in> set (getAbsentMembers w targetDate)"
    by (simp add: getAbsentMembers_def)
  then show ?thesis by simp
qed

lemma covers_range:
  assumes "a_startDate r = Some sd" and "(case a_endDate r of Some x \<Rightarrow> x | None \<Rightarrow> sd) = ed"
    and "sd \<le> d" and "d \<le> ed"
  shows "covers r (Some d)"
  using assms by (cases "a_endDate r") (simp_all add: covers_def date_le_def Let_def)

lemma share_keys_processed:
  assumes pm: "w_presenceModule w" and dt: "date e = Some d" and sb: "splitBetween e = Some ps"
    and absent: "x \<in> set (map m_id (getAbsentMembers w (Some d)))"
    and key: "x \<in> share_keys (processAbsentMembers w e)"
  shows "filter (\<lambda>p. p \<notin> set (map m_id (getAbsentMembers w (Some d)))) ps = []
         \<and> paidBy e = x
         \<and> splitBetween (processAbsentMembers w e) = Some [x]"
proof -
  let ?A = "set (map m_id (getAbsentMembers w (Some d)))"
  let ?filtered = "filter (\<lambda>p. p \<notin> ?A) ps"
  let ?present = "if length ?filtered = 0 \<and> paidBy e \<noteq> [] then ?filtered @ [paidBy e] else ?filtered"
  have sbp: "splitBetween (processAbsentMembers w e) = Some ?present"
    using pm dt sb by (auto simp add: processAbsentMembers_def Let_def split: option.splits)
  have keys: "share_keys (processAbsentMembers w e) \<subseteq> set ?present \<union> (share_keys e - ?A)"
    using pm dt sb
    by (auto simp add: processAbsentMembers_def Let_def share_keys_def keys_fold_update
        keys_fold_delete keys_redistribute split: option.splits if_splits)
  from key keys absent have "x \<in> set ?present" by blast
  moreover have "x \<notin> set ?filtered" using absent by simp
  ultimately have "?filtered = [] \<and> paidBy e = x \<and> paidBy e \<noteq> []"
    by (auto split: if_splits)
  with sbp show ?thesis by auto
qed

text \<open>
  C5 (a member who is absent on the expense date has no share in the processed expense,
  the payer fallback apart). The presence module and the storage are there, the expense
  has a date and a participant array, and the member has an absence record whose range,
  both ends included, covers the date. Then the member has no share in the share map of
  the processed expense, unless filtering left no participant and the member is the
  payer, who is then the only participant.
\<close>

theorem absent_member_has_no_share:
  assumes "w_presenceModule w" and "w_storage w = Some s"
    and "date e = Some d" and "splitBetween e = Some ps"
    and "m \<in> set (ls_members s)" and "r \<in> set (ls_presence s)" and "a_memberId r = m_id m"
    and "a_startDate r = Some sd" and "(case a_endDate r of Some x \<Rightarrow> x | None \<Rightarrow> sd) = ed"
    and "sd \<le> d" and "d \<le> ed"
  shows "m_id m \<notin> share_keys (processAbsentMembers w e)
         \<or> (filter (\<lambda>p. p \<notin> set (map m_id (getAbsentMembers w (Some d)))) ps = []
            \<and> paidBy e = m_id m
            \<and> splitBetween (processAbsentMembers w e) = Some [m_id m])"
proof -
  have "covers r (Some d)" using assms(8-11) by (rule covers_range)
  with assms(2,5,6,7) have "m_id m \<in> set (map m_id (getAbsentMembers w (Some d)))"
    by (rule absent_member_id)
  with assms(1,3,4) show ?thesis
    using share_keys_processed[of w e d ps "m_id m"] by blast
qed

theorem absent_member_has_no_share_witness:
  "splitDetails (processAbsentMembers dinner_window dinner)
     = Some [(''alice'', 45), (''carol'', 45)]
   \<and> m_id bob \<notin> share_keys (processAbsentMembers dinner_window dinner)"
proof -
  have 1: "w_presenceModule dinner_window" "w_storage dinner_window = Some dinner_store"
    by (simp_all add: dinner_window_def)
  have 2: "date dinner = Some 10" "splitBetween dinner = Some [''alice'', ''bob'', ''carol'']"
    by (simp_all add: dinner_def)
  have 3: "bob \<in> set (ls_members dinner_store)" "bob_away \<in> set (ls_presence dinner_store)"
    by (simp_all add: dinner_store_def)
  have 4: "a_memberId bob_away = m_id bob" "a_startDate bob_away = Some 5"
    "(case a_endDate bob_away of Some x \<Rightarrow> x | None \<Rightarrow> 5) = 15"
    by (simp_all add: bob_away_def bob_def)
  have 5: "(5::int) \<le> 10" "(10::int) \<le> 15" by simp_all
  have 6: "paidBy dinner \<noteq> m_id bob" by (simp add: dinner_def bob_def)
  have 7: "splitDetails (processAbsentMembers dinner_window dinner)
     = Some [(''alice'', 45), (''carol'', 45)]" by code_simp
  show ?thesis
    using 6 7 absent_member_has_no_share [OF 1 2 3 4 5] by blast
qed

section \<open>Deleting a member\<close>

text \<open>
  C6 (a member referenced by an expense or by an absence record cannot be deleted), as
  amended. Only expenses block: if the member is the payer or a participant of a stored
  expense, \<open>deleteMember\<close> throws and the store is as before; otherwise it returns
  \<open>true\<close>, and the member is removed together with all absence records of the member,
  the expenses staying as they are.
\<close>

theorem deleteMember_blocked_by_expenses:
  "(referenced_by_expense s memberId \<longrightarrow>
      deleteMember s memberId = (Inl (Error ''Cannot delete member with existing expenses''), s))
   \<and> (\<not> referenced_by_expense s memberId \<longrightarrow>
      deleteMember s memberId =
        (Inr True, s \<lparr> ls_members := filter (\<lambda>m. m_id m \<noteq> memberId) (ls_members s),
                       ls_presence := filter (\<lambda>r. a_memberId r \<noteq> memberId) (ls_presence s) \<rparr>))"
proof -
  have inner: "(case sb of Some between \<Rightarrow> memberId \<in> set between | None \<Rightarrow> False)
      = (memberId \<in> set (case sb of Some between \<Rightarrow> between | None \<Rightarrow> []))" for sb
    by (cases sb) simp_all
  have "list_ex (\<lambda>(monthKey, monthExpenses).
                list_ex (\<lambda>expense. paidBy expense = memberId \<or>
                           (case splitBetween expense of
                              Some between \<Rightarrow> memberId \<in> set between
                            | None \<Rightarrow> False))
                        monthExpenses)
              (ls_expenses s) = referenced_by_expense s memberId"
    unfolding referenced_by_expense_def list_ex_iff inner
    by (simp add: case_prod_beta)
  then show ?thesis
    by (simp add: deleteMember_def Let_def)
qed

theorem deleteMember_blocked_by_expenses_witness:
  "referenced_by_expense dinner_store ''alice''
   \<and> deleteMember dinner_store ''alice''
       = (Inl (Error ''Cannot delete member with existing expenses''), dinner_store)
   \<and> \<not> referenced_by_expense away_store ''bob''
   \<and> deleteMember away_store ''bob''
       = (Inr True, \<lparr> ls_members = [alice], ls_expenses = [], ls_presence = [] \<rparr>)"
proof -
  have a: "referenced_by_expense dinner_store ''alice''"
    by (simp add: referenced_by_expense_def dinner_store_def dinner_def)
  have b: "\<not> referenced_by_expense away_store ''bob''"
    by (simp add: referenced_by_expense_def away_store_def)
  have c: "away_store \<lparr> ls_members := filter (\<lambda>m. m_id m \<noteq> ''bob'') (ls_members away_store),
                        ls_presence := filter (\<lambda>r. a_memberId r \<noteq> ''bob'') (ls_presence away_store) \<rparr>
      = \<lparr> ls_members = [alice], ls_expenses = [], ls_presence = [] \<rparr>"
    by (simp add: away_store_def alice_def bob_def bob_away_def)
  show ?thesis
    using a b c deleteMember_blocked_by_expenses [of dinner_store "''alice''"]
      deleteMember_blocked_by_expenses [of away_store "''bob''"]
    by simp
qed

theorem deleteMember_cascades_absences:
  "list_ex (\<lambda>r. a_memberId r = ''bob'') (ls_presence away_store)
   \<and> deleteMember away_store ''bob''
       = (Inr True, \<lparr> ls_members = [alice], ls_expenses = [], ls_presence = [] \<rparr>)"
  by code_simp

section \<open>Saving an absence record\<close>





section \<open>The monthly trend\<close>

lemma growth_loop_length: "length (growth_loop i trends) = length trends"
proof (induction i trends rule: growth_loop.induct)
  case (1 i trends)
  show ?case
  proof (cases "i < length trends")
    case True
    then show ?thesis
      using "1.IH"[OF True refl refl] by (subst growth_loop.simps) (simp add: Let_def)
  next
    case False
    then show ?thesis by (subst growth_loop.simps) simp
  qed
qed

lemma growth_loop_nth:
  "0 < i \<Longrightarrow> k < length trends \<Longrightarrow>
   growth_loop i trends ! k =
     (if i \<le> k
      then (trends ! k) \<lparr> t_growth := Some (growth_of (t_total (trends ! (k - 1))) (t_total (trends ! k))) \<rparr>
      else trends ! k)"
proof (induction i trends arbitrary: k rule: growth_loop.induct)
  case (1 i trends)
  show ?case
  proof (cases "i < length trends")
    case True
    let ?ts = "trends[i := (trends ! i) \<lparr> t_growth := Some (growth_of (t_total (trends ! (i - 1))) (t_total (trends ! i))) \<rparr>]"
    have tot: "t_total (?ts ! n) = t_total (trends ! n)" if "n < length trends" for n
      using that by (cases "n = i") simp_all
    have step: "growth_loop i trends = growth_loop (i + 1) ?ts"
      using True by (subst growth_loop.simps) (simp add: Let_def)
    have IH: "growth_loop (i + 1) ?ts ! k =
      (if i + 1 \<le> k
       then (?ts ! k) \<lparr> t_growth := Some (growth_of (t_total (?ts ! (k - 1))) (t_total (?ts ! k))) \<rparr>
       else ?ts ! k)"
      using "1.IH"[OF True refl refl, of k] "1.prems" by simp
    show ?thesis
    proof (cases "i + 1 \<le> k")
      case True
      then have "k - 1 < length trends" "k \<noteq> i" using "1.prems" by auto
      then show ?thesis using True IH step tot "1.prems" by simp
    next
      case False
      then show ?thesis using IH step "1.prems" True by (cases "k = i") simp_all
    qed
  next
    case False
    then show ?thesis using "1.prems" by (subst growth_loop.simps) simp
  qed
qed

text \<open>
  C8 (month-over-month growth), as amended. For every entry of the trend array after the
  first: if the total of the entry before is positive, the growth is
  \<open>(current - previous) / previous * 100\<close>, each operation rounded to a double, then
  rounded to one decimal; otherwise the growth is 100 if the total of the entry itself is
  positive, and 0 if it is not.
\<close>

theorem trend_growth:
  assumes "0 < k" and "k < length (calculateTrends expensesByMonth)"
  shows "t_growth (calculateTrends expensesByMonth ! k) =
           Some (if t_total (calculateTrends expensesByMonth ! (k - 1)) > 0
                 then toFixed1 (js_mul
                        (js_div (js_sub (t_total (calculateTrends expensesByMonth ! k))
                                        (t_total (calculateTrends expensesByMonth ! (k - 1))))
                                (t_total (calculateTrends expensesByMonth ! (k - 1))))
                        100)
                 else if t_total (calculateTrends expensesByMonth ! k) > 0 then 100 else 0)"
proof -
  let ?ts = "sort_key t_month (map month_bucket expensesByMonth)"
  have len: "k < length ?ts" "k - 1 < length ?ts"
    using assms by (simp_all add: calculateTrends_def growth_loop_length)
  have a: "calculateTrends expensesByMonth ! k =
      (?ts ! k) \<lparr> t_growth := Some (growth_of (t_total (?ts ! (k - 1))) (t_total (?ts ! k))) \<rparr>"
    unfolding calculateTrends_def using growth_loop_nth[of 1 k ?ts] assms len by simp
  have b: "t_total (calculateTrends expensesByMonth ! (k - 1)) = t_total (?ts ! (k - 1))"
    unfolding calculateTrends_def using growth_loop_nth[of 1 "k - 1" ?ts] len by simp
  show ?thesis
    unfolding b unfolding a by (simp add: growth_of_def)
qed

theorem trend_growth_witness:
  "(0::nat) < 1 \<and> 1 < length (calculateTrends rents)
   \<and> t_total (calculateTrends rents ! 0) = 2000
   \<and> t_total (calculateTrends rents ! 1) = 2003
   \<and> t_growth (calculateTrends rents ! 1) = Some tenth
   \<and> t_growth (calculateTrends two_months ! 1) = Some (- 50)"
proof -
  have h1: "(0::nat) < 1" by simp
  have h2: "1 < length (calculateTrends rents)" by code_simp
  have t0: "t_total (calculateTrends rents ! (1 - 1)) = 2000" by code_simp
  have t1: "t_total (calculateTrends rents ! 1) = 2003" by code_simp
  have v: "toFixed1 (js_mul (js_div (js_sub 2003 2000) 2000) 100) = tenth" by code_simp
  have w: "t_growth (calculateTrends two_months ! 1) = Some (- 50)" by code_simp
  have "t_growth (calculateTrends rents ! 1) = Some tenth"
    using trend_growth [OF h1 h2] unfolding t0 t1 v by simp
  with h2 t0 t1 w show ?thesis by simp
qed

theorem trend_growth_from_zero:
  "t_total (calculateTrends empty_january ! 0) = 0
   \<and> t_growth (calculateTrends empty_january ! 1) = Some 100
   \<and> t_growth (calculateTrends empty_january ! 1) \<noteq> Some 0"
  by code_simp

section \<open>The planner on the heap\<close>





lemma fresh_refs_bound: "fresh_refs h0 h refs \<Longrightarrow> a \<in> set refs \<Longrightarrow> a < length h"
  by (simp add: fresh_refs_def)




























text \<open>
  In the program, the balances that \<open>calculateSettlements\<close> is given are those that
  \<open>calculateBalances\<close> returns (\<open>settlement.js\<close>), and on those it returns.
\<close>

lemma lookup0_rounded:
  "\<exists>x. lookup0 (map (\<lambda>(memberId, v). (memberId, toFixed2 v)) b) k = toFixed2 x"
proof (induction b)
  case Nil
  have "lookup0 [] k = toFixed2 0" by (simp add: lookup0_def toFixed2_zero)
  then show ?case by auto
next
  case (Cons p b)
  show ?case
  proof (cases "fst p = k")
    case True
    then have "lookup0 (map (\<lambda>(memberId, v). (memberId, toFixed2 v)) (p # b)) k = toFixed2 (snd p)"
      by (simp add: lookup0_def case_prod_beta)
    then show ?thesis by blast
  next
    case False
    then have "lookup0 (map (\<lambda>(memberId, v). (memberId, toFixed2 v)) (p # b)) k
        = lookup0 (map (\<lambda>(memberId, v). (memberId, toFixed2 v)) b) k"
      by (simp add: lookup0_def case_prod_beta)
    with Cons show ?thesis by simp
  qed
qed

lemma calculateBalances_rounded:
  "\<exists>x. lookup0 (calculateBalances expenses members) k = toFixed2 x"
proof (cases "balance_expenses expenses (fold (\<lambda>m b. AList.update (m_id m) 0 b) members [])")
  case (Inl err)
  then have "lookup0 (calculateBalances expenses members) k = toFixed2 0"
    by (simp add: calculateBalances_def lookup0_def toFixed2_zero)
  then show ?thesis by blast
next
  case (Inr b)
  then have "calculateBalances expenses members = map (\<lambda>(memberId, v). (memberId, toFixed2 v)) b"
    by (simp add: calculateBalances_def)
  then show ?thesis by (simp only: lookup0_rounded)
qed

lemma calculateSettlements_returns_in_use:
  "\<exists>instructions.
     calculateSettlements (calculateBalances expenses members) members' = Some instructions"
proof -
  have "\<forall>m \<in> set members'.
          \<exists>x. lookup0 (calculateBalances expenses members) (m_id m) = toFixed2 x"
    by (simp add: calculateBalances_rounded)
  from plan_returns_on_cents[OF this] show ?thesis by (auto simp: calculateSettlements_def)
qed



end
